theory Spec2Isabelle
  imports Complex_Main
begin

section \<open>Text\<close>

text \<open>
  A Python \<open>str\<close> is a sequence of Unicode code points, so \<open>len\<close> counts code points
  and a range test against the CJK block U+4E00 .. U+9FFF compares code points. Text and
  attribute values are therefore lists of natural numbers. Tag names, attribute names,
  class names and dictionary keys are only ever compared for equality and are kept as
  plain strings.
\<close>

type_synonym ustr = "nat list"

definition u :: "string \<Rightarrow> ustr" where
  "u s = map of_char s"

definition isspace :: "nat \<Rightarrow> bool" where
  \<comment> \<open>the code points \<open>str.strip()\<close> removes: those with \<open>str.isspace()\<close> true\<close>
  "isspace c \<longleftrightarrow>
     (9 \<le> c \<and> c \<le> 13) \<or> (28 \<le> c \<and> c \<le> 32) \<or> c = 133 \<or> c = 160 \<or> c = 5760 \<or>
     (8192 \<le> c \<and> c \<le> 8202) \<or> c = 8232 \<or> c = 8233 \<or> c = 8239 \<or> c = 8287 \<or> c = 12288"

definition strip :: "ustr \<Rightarrow> ustr" where
  "strip s = rev (dropWhile isspace (rev (dropWhile isspace s)))"

definition replace_newline :: "ustr \<Rightarrow> ustr" where
  \<comment> \<open>\<open>t.replace('\n', ' ')\<close>\<close>
  "replace_newline s = map (\<lambda>c. if c = 10 then 32 else c) s"

fun str_join :: "ustr \<Rightarrow> ustr list \<Rightarrow> ustr" where
  "str_join sep [] = []"
| "str_join sep [x] = x"
| "str_join sep (x # y # ys) = x @ sep @ str_join sep (y # ys)"

definition fromkeys :: "'a list \<Rightarrow> 'a list" where
  \<comment> \<open>the keys of \<open>dict.fromkeys(xs)\<close> in insertion order: first occurrences only\<close>
  "fromkeys xs = foldl (\<lambda>d k. if k \<in> set d then d else d @ [k]) [] xs"

definition cjk :: "nat \<Rightarrow> bool" where
  \<comment> \<open>the test of \<open>c\<close> against the range U+4E00 .. U+9FFF\<close>
  "cjk c \<longleftrightarrow> 19968 \<le> c \<and> c \<le> 40959"

fun digits :: "nat \<Rightarrow> ustr" where
  "digits n = (if n < 10 then [48 + n] else digits (n div 10) @ [48 + n mod 10])"

definition str_int :: "int \<Rightarrow> ustr" where
  \<comment> \<open>the decimal form an f-string gives an \<open>int\<close>\<close>
  "str_int i = (if i < 0 then 45 # digits (nat (- i)) else digits (nat i))"

section \<open>The markup tree\<close>

text \<open>
  The tree BeautifulSoup builds: an element has a name, its list of classes (the
  multi-valued \<open>class\<close> attribute), its other attributes and its children; a text node
  holds a string and the class of string the tree builder gave it: the text of a comment
  is a \<open>Comment\<close>, the text below a \<open>script\<close>, \<open>style\<close>, \<open>template\<close>, \<open>rt\<close> or \<open>rp\<close>
  element is a \<open>Script\<close>, \<open>Stylesheet\<close>, \<open>TemplateString\<close>, \<open>RubyTextString\<close> or
  \<open>RubyParenthesisString\<close>, ordinary text is a \<open>NavigableString\<close>. A \<open>tag\<close> is a
  reference to an element inside a document, so it carries the element's ancestors,
  nearest first: a selector with a descendant combinator looks at ancestors of the
  matched node, also at those above the node being searched.
\<close>

datatype string_class =
    NavigableString | CData | Comment | Declaration | Doctype | ProcessingInstruction
  | Script | Stylesheet | TemplateString | RubyTextString | RubyParenthesisString

datatype node =
    Element (name: string) (classes: "string list") (attrs: "(string \<times> ustr) list")
            (contents: "node list")
  | Text string_class ustr

datatype tag = At (parents: "node list") (self: node)

fun descendants :: "node list \<Rightarrow> node \<Rightarrow> tag list" where
  "descendants ps (Text k s) = []"
| "descendants ps (Element n cs as kids) =
     concat (map (\<lambda>c. (case c of Text k s \<Rightarrow> [] | Element n' cs' as' kids' \<Rightarrow>
                          [At (Element n cs as kids # ps) c])
                      @ descendants (Element n cs as kids # ps) c) kids)"

fun all_strings :: "node \<Rightarrow> (string_class \<times> ustr) list" where
  "all_strings (Text k s) = [(k, s)]"
| "all_strings (Element n cs as kids) = concat (map all_strings kids)"

definition interesting_string_types :: "string \<Rightarrow> string_class list" where
  \<comment> \<open>the classes of string \<open>get_text\<close> collects below an element of the given name\<close>
  "interesting_string_types n =
     (if n = ''rt'' then [RubyTextString]
      else if n = ''rp'' then [RubyParenthesisString]
      else if n = ''style'' then [Stylesheet]
      else if n = ''script'' then [Script]
      else if n = ''template'' then [TemplateString]
      else [NavigableString, CData])"

definition get_text :: "tag \<Rightarrow> ustr" where
  \<comment> \<open>\<open>get_text(strip=True)\<close>: the strings below the element whose class is one the element
      collects, each stripped, the empty ones dropped, joined by ''\<close>
  "get_text t =
     (case self t of
        Text k s \<Rightarrow> []
      | Element n cs as kids \<Rightarrow>
          concat (filter (\<lambda>s. s \<noteq> [])
            (map (\<lambda>(k, s). strip s)
               (filter (\<lambda>(k, s). k \<in> set (interesting_string_types n))
                  (all_strings (self t))))))"

definition get_attr :: "tag \<Rightarrow> string \<Rightarrow> ustr option" where
  \<comment> \<open>\<open>t.get(k)\<close>; \<open>t.has_attr(k)\<close> is \<open>get_attr t k \<noteq> None\<close> and \<open>t[k]\<close> its value\<close>
  "get_attr t k = (case self t of Text c s \<Rightarrow> None | Element n cs as kids \<Rightarrow> map_of as k)"

definition children_of :: "tag \<Rightarrow> tag list" where
  "children_of t = descendants (parents t) (self t)"

definition find_all :: "tag \<Rightarrow> string list \<Rightarrow> tag list" where
  "find_all t names =
     filter (\<lambda>d. case self d of Text k s \<Rightarrow> False | Element n cs as kids \<Rightarrow> n \<in> set names)
       (children_of t)"

definition find_tag :: "tag \<Rightarrow> string \<Rightarrow> tag option" where
  "find_tag t n = (case find_all t [n] of [] \<Rightarrow> None | d # ds \<Rightarrow> Some d)"

subsection \<open>Selectors\<close>

text \<open>
  The selectors of the program are compound selectors (an optional tag name, classes,
  attributes that must be present) chained by the descendant combinator.
\<close>

record compound =
  sel_name :: "string option"
  sel_classes :: "string list"
  sel_attrs :: "string list"

type_synonym selector = "compound list"

definition compound_matches :: "compound \<Rightarrow> node \<Rightarrow> bool" where
  "compound_matches c e \<longleftrightarrow>
     (case e of Text k s \<Rightarrow> False
      | Element n cs as kids \<Rightarrow>
          (case sel_name c of None \<Rightarrow> True | Some m \<Rightarrow> m = n) \<and>
          list_all (\<lambda>k. k \<in> set cs) (sel_classes c) \<and>
          list_all (\<lambda>k. map_of as k \<noteq> None) (sel_attrs c))"

fun matches_chain :: "compound list \<Rightarrow> node list \<Rightarrow> bool" where
  "matches_chain [] ps = True"
| "matches_chain (c # cs) [] = False"
| "matches_chain (c # cs) (p # ps) =
     ((compound_matches c p \<and> matches_chain cs ps) \<or> matches_chain (c # cs) ps)"

definition selector_matches :: "selector \<Rightarrow> tag \<Rightarrow> bool" where
  "selector_matches sel t =
     (case rev sel of [] \<Rightarrow> False
      | c # cs \<Rightarrow> compound_matches c (self t) \<and> matches_chain cs (parents t))"

definition select :: "tag \<Rightarrow> selector \<Rightarrow> tag list" where
  "select t sel = filter (selector_matches sel) (children_of t)"

definition select_one :: "tag \<Rightarrow> selector \<Rightarrow> tag option" where
  "select_one t sel = (case select t sel of [] \<Rightarrow> None | d # ds \<Rightarrow> Some d)"

definition by_name :: "string \<Rightarrow> compound" where
  "by_name n = \<lparr>sel_name = Some n, sel_classes = [], sel_attrs = []\<rparr>"

definition by_class :: "string \<Rightarrow> compound" where
  "by_class c = \<lparr>sel_name = None, sel_classes = [c], sel_attrs = []\<rparr>"

section \<open>The collaborators\<close>

text \<open>
  What the program takes from outside itself: the HTTP request (\<open>requests.get\<close> followed
  by \<open>raise_for_status\<close>, which returns the body or raises), the HTML parser (which
  returns the nodes of the document or rejects the markup), the URL resolution of
  \<open>urllib.parse\<close> (which returns a URL or raises \<open>ValueError\<close>, as it does on \<open>//[\<close>), the
  Unicode tables behind \<open>str.isalpha\<close> and \<open>str.lower\<close>, and the random number
  generator, whose \<open>k\<close>-th draw is \<open>random_draw env k\<close>. An exception is the left
  injection of a result; only \<open>fetch\<close> catches one, so everywhere else it ends the call
  and each caller up to \<open>scrape_pages\<close>.
\<close>

datatype error = RequestException | ParserRejectedMarkup | ValueError

record env =
  http_get :: "ustr \<Rightarrow> error + ustr"
  html_parser :: "ustr \<Rightarrow> error + node list"
  urljoin :: "ustr \<Rightarrow> ustr \<Rightarrow> error + ustr"
  isalpha :: "nat \<Rightarrow> bool"
  lower :: "ustr \<Rightarrow> ustr"
  random_draw :: "nat \<Rightarrow> real"

definition BASE :: ustr where
  "BASE = u ''https://ssr1.scrape.center''"

definition fetch :: "env \<Rightarrow> ustr \<Rightarrow> ustr option" where
  "fetch env url = (case http_get env url of Inl e \<Rightarrow> None | Inr text \<Rightarrow> Some text)"

section \<open>Dictionaries\<close>

text \<open>
  A Python \<open>dict\<close> keeps its keys in insertion order; assigning to a key that is present
  keeps the key's place.
\<close>

datatype pyval = PyStr ustr | PyInt int

type_synonym dict = "(string \<times> pyval) list"

fun setitem :: "dict \<Rightarrow> string \<Rightarrow> pyval \<Rightarrow> dict" where
  "setitem [] k v = [(k, v)]"
| "setitem ((k', v') # d) k v = (if k' = k then (k, v) # d else (k', v') # setitem d k v)"

definition getitem :: "dict \<Rightarrow> string \<Rightarrow> pyval option" where
  "getitem d k = map_of d k"

fun truthy :: "pyval option \<Rightarrow> bool" where
  "truthy (Some (PyStr s)) = (s \<noteq> [])"
| "truthy (Some (PyInt i)) = (i \<noteq> 0)"
| "truthy None = False"

section \<open>parse_movie_card\<close>

text \<open>The container handed to \<open>parse_movie_card\<close> is written \<open>crd\<close>.\<close>

definition title_selectors :: "selector list" where
  "title_selectors =
     [[by_name ''h2''],
      [by_class ''name''],
      [\<lparr>sel_name = Some ''a'', sel_classes = [], sel_attrs = [''title'']\<rparr>],
      [\<lparr>sel_name = Some ''a'', sel_classes = [''movie-name''], sel_attrs = []\<rparr>],
      [by_class ''el-card__header'', by_name ''h2'']]"

fun title_loop :: "tag \<Rightarrow> selector list \<Rightarrow> dict \<Rightarrow> dict" where
  "title_loop crd [] data = data"
| "title_loop crd (sel # sels) data =
     (case select_one crd sel of
        None \<Rightarrow> title_loop crd sels data
      | Some node \<Rightarrow>
          (let data' = setitem data ''title''
                 (PyStr (case get_attr node ''title'' of
                           None \<Rightarrow> get_text node
                         | Some t \<Rightarrow> if strip t \<noteq> [] then strip t else get_text node))
           in if truthy (getitem data' ''title'') then data' else title_loop crd sels data'))"

definition detail_step :: "env \<Rightarrow> tag \<Rightarrow> dict \<Rightarrow> error + dict" where
  "detail_step env crd data =
     (let a = (case select_one crd
                      [\<lparr>sel_name = Some ''a'', sel_classes = [], sel_attrs = [''href'']\<rparr>] of
                 Some x \<Rightarrow> Some x
               | None \<Rightarrow> find_tag crd ''a'')
      in case a of
           None \<Rightarrow> Inr data
         | Some x \<Rightarrow>
             (case get_attr x ''href'' of
                None \<Rightarrow> Inr data
              | Some href \<Rightarrow>
                  (case urljoin env BASE href of
                     Inl e \<Rightarrow> Inl e
                   | Inr url \<Rightarrow> Inr (setitem data ''detail_url'' (PyStr url)))))"

definition py_or :: "ustr option \<Rightarrow> ustr option \<Rightarrow> ustr option" where
  \<comment> \<open>\<open>a or b\<close> on values that are a string or \<open>None\<close>\<close>
  "py_or a b = (case a of None \<Rightarrow> b | Some s \<Rightarrow> if s \<noteq> [] then a else b)"

definition image_step :: "env \<Rightarrow> tag \<Rightarrow> dict \<Rightarrow> error + dict" where
  "image_step env crd data =
     (case find_tag crd ''img'' of
        None \<Rightarrow> Inr data
      | Some img \<Rightarrow>
          (case py_or (py_or (get_attr img ''src'') (get_attr img ''data-src''))
                      (get_attr img ''data-original'') of
             None \<Rightarrow> Inr data
           | Some src \<Rightarrow>
               if src \<noteq> [] then
                 (case urljoin env BASE src of
                    Inl e \<Rightarrow> Inl e
                  | Inr url \<Rightarrow> Inr (setitem data ''image_url'' (PyStr url)))
               else Inr data))"

definition rating_selectors :: "selector list" where
  "rating_selectors =
     [[by_class ''score''],
      [by_class ''rating''],
      [by_class ''en'', by_class ''score''],
      [by_class ''info'', by_class ''score''],
      [by_class ''score-number'']]"

fun rating_loop :: "tag \<Rightarrow> selector list \<Rightarrow> dict \<Rightarrow> dict" where
  "rating_loop crd [] data = data"
| "rating_loop crd (sel # sels) data =
     (case select_one crd sel of
        None \<Rightarrow> rating_loop crd sels data
      | Some node \<Rightarrow> setitem data ''rating'' (PyStr (get_text node)))"

definition rating_step :: "tag \<Rightarrow> dict \<Rightarrow> dict" where
  "rating_step crd data =
     (let data' = rating_loop crd rating_selectors data
      in if \<not> truthy (getitem data' ''rating'') then
           (case get_attr crd ''data-score'' of
              None \<Rightarrow> data'
            | Some v \<Rightarrow> setitem data' ''rating'' (PyStr v))
         else data')"

definition type_selectors :: "selector list" where
  "type_selectors =
     [[by_class ''types''],
      [by_class ''genre''],
      [by_class ''genres''],
      [by_class ''categories''],
      [by_class ''meta''],
      [by_class ''info'', by_class ''tags'']]"

fun types_loop :: "tag \<Rightarrow> selector list \<Rightarrow> ustr list \<Rightarrow> ustr list" where
  "types_loop crd [] types_found = types_found"
| "types_loop crd (sel # sels) types_found =
     (let nodes = select crd sel
      in if nodes \<noteq> [] then
           (let found' = types_found @ filter (\<lambda>txt. txt \<noteq> []) (map get_text nodes)
            in if found' \<noteq> [] then found' else types_loop crd sels found')
         else types_loop crd sels types_found)"

definition heuristic_accepts :: "env \<Rightarrow> ustr \<Rightarrow> bool" where
  \<comment> \<open>the test of line 120; \<open>and\<close> binds tighter than \<open>or\<close>\<close>
  "heuristic_accepts env txt \<longleftrightarrow>
     (txt \<noteq> [] \<and> 1 \<le> length txt \<and> length txt \<le> 40 \<and> list_ex (isalpha env) txt)
     \<or> list_ex cjk txt"

definition types_heuristic :: "env \<Rightarrow> tag \<Rightarrow> ustr list \<Rightarrow> ustr list" where
  "types_heuristic env crd types_found =
     (if types_found = [] then
        types_found @
          filter (heuristic_accepts env) (map get_text (take 6 (find_all crd [''span'', ''p''])))
      else types_found)"

definition denylist :: "ustr list" where
  "denylist = [u ''new'', u ''2020'', u ''2021'']"

definition clean_types :: "env \<Rightarrow> ustr list \<Rightarrow> ustr list" where
  "clean_types env types_found =
     filter (\<lambda>t. t \<noteq> [] \<and> lower env t \<notin> set denylist)
       (map (\<lambda>t. strip (replace_newline t)) types_found)"

definition types_step :: "env \<Rightarrow> tag \<Rightarrow> dict \<Rightarrow> dict" where
  "types_step env crd data =
     (let types_found = types_heuristic env crd (types_loop crd type_selectors [])
      in if types_found \<noteq> [] then
           setitem data ''types''
             (PyStr (str_join (u '';'') (fromkeys (clean_types env types_found))))
         else data)"

definition parse_movie_card :: "env \<Rightarrow> tag \<Rightarrow> ustr \<Rightarrow> error + dict" where
  "parse_movie_card env crd page_url =
     (let data = [(''title'', PyStr []), (''image_url'', PyStr []), (''rating'', PyStr []),
                  (''types'', PyStr []), (''detail_url'', PyStr [])];
          data = title_loop crd title_selectors data
      in case detail_step env crd data of
           Inl e \<Rightarrow> Inl e
         | Inr data \<Rightarrow>
             (case image_step env crd data of
                Inl e \<Rightarrow> Inl e
              | Inr data \<Rightarrow>
                  (let data = rating_step crd data;
                       data = types_step env crd data
                   in Inr data)))"

section \<open>scrape_pages\<close>

text \<open>
  The run keeps the accumulated rows and, in the order they happen, the two effects of
  the loop: the fetch of a page URL and the politeness sleep with its duration. The
  \<open>print\<close> calls are left out. A run that an exception ends has the exception for its
  result.
\<close>

datatype event = Fetch ustr | Sleep real

record run =
  rows :: "dict list"
  events :: "event list"
  draws :: nat

definition card_selectors :: "selector list" where
  "card_selectors =
     [[by_class ''movie-item''],
      [\<lparr>sel_name = None, sel_classes = [''el-card'', ''movie-item''], sel_attrs = []\<rparr>],
      [by_class ''el-card''],
      [by_class ''card''],
      [by_class ''item''],
      [by_class ''movie'']]"

fun cards_loop :: "tag \<Rightarrow> selector list \<Rightarrow> tag list" where
  "cards_loop soup [] = []"
| "cards_loop soup (sel # sels) =
     (let found = select soup sel
      in if found \<noteq> [] \<and> length found \<ge> 1 then found else cards_loop soup sels)"

definition possible_cards :: "tag \<Rightarrow> tag list" where
  \<comment> \<open>the scan of lines 163 to 167\<close>
  "possible_cards soup =
     filter (\<lambda>p. find_tag p ''img'' \<noteq> None \<and> find_tag p ''a'' \<noteq> None)
       (find_all soup [''article'', ''li'', ''div''])"

definition find_cards :: "tag \<Rightarrow> tag list" where
  "find_cards soup =
     (let cards = cards_loop soup card_selectors
      in if cards = [] then cards @ possible_cards soup else cards)"

definition card_row :: "env \<Rightarrow> int \<Rightarrow> ustr \<Rightarrow> tag \<Rightarrow> error + dict option" where
  \<comment> \<open>the body of the loop over the cards: \<open>None\<close> is the \<open>continue\<close> of line 183\<close>
  "card_row env i page_url c =
     (case parse_movie_card env c page_url of
        Inl e \<Rightarrow> Inl e
      | Inr data \<Rightarrow>
          (let data = setitem data ''page'' (PyInt i);
               data = (if \<not> truthy (getitem data ''title'') then
                         (case find_tag c ''img'' of
                            None \<Rightarrow> data
                          | Some img \<Rightarrow>
                              (case get_attr img ''alt'' of
                                 None \<Rightarrow> data
                               | Some alt \<Rightarrow> setitem data ''title'' (PyStr (strip alt))))
                       else data)
           in if \<not> truthy (getitem data ''title'') then Inr None else Inr (Some data)))"

fun cards_rows :: "env \<Rightarrow> int \<Rightarrow> ustr \<Rightarrow> tag list \<Rightarrow> dict list \<Rightarrow> error + dict list" where
  "cards_rows env i page_url [] rws = Inr rws"
| "cards_rows env i page_url (c # cs) rws =
     (case card_row env i page_url c of
        Inl e \<Rightarrow> Inl e
      | Inr None \<Rightarrow> cards_rows env i page_url cs rws
      | Inr (Some data) \<Rightarrow> cards_rows env i page_url cs (rws @ [data]))"

definition soup_of :: "env \<Rightarrow> ustr \<Rightarrow> error + tag" where
  \<comment> \<open>\<open>BeautifulSoup(html, 'html.parser')\<close>: the document object above the parsed nodes\<close>
  "soup_of env html =
     (case html_parser env html of
        Inl e \<Rightarrow> Inl e
      | Inr nodes \<Rightarrow> Inr (At [] (Element ''[document]'' [] [] nodes)))"

definition page_url_of :: "int \<Rightarrow> ustr" where
  "page_url_of i = BASE @ u ''/page/'' @ str_int i"

fun pages_loop :: "env \<Rightarrow> int list \<Rightarrow> run \<Rightarrow> error + run" where
  "pages_loop env [] st = Inr st"
| "pages_loop env (i # is) st =
     (let page_url = page_url_of i;
          html = fetch env page_url;
          st = st\<lparr>events := events st @ [Fetch page_url]\<rparr>
      in case html of
           None \<Rightarrow> pages_loop env is st
         | Some text \<Rightarrow>
             if text = [] then pages_loop env is st
             else
               (case soup_of env text of
                  Inl e \<Rightarrow> Inl e
                | Inr soup \<Rightarrow>
                    (case cards_rows env i page_url (find_cards soup) (rows st) of
                       Inl e \<Rightarrow> Inl e
                     | Inr rws \<Rightarrow>
                         (let st = st\<lparr>rows := rws\<rparr>;
                              st = st\<lparr>events := events st @
                                          [Sleep (0.6 + random_draw env (draws st) * 1.2)],
                                      draws := Suc (draws st)\<rparr>
                          in pages_loop env is st))))"

definition scrape_run :: "env \<Rightarrow> int \<Rightarrow> int \<Rightarrow> error + run" where
  "scrape_run env start end' =
     pages_loop env [start..end'] \<lparr>rows = [], events = [], draws = 0\<rparr>"

definition scrape_pages :: "env \<Rightarrow> int \<Rightarrow> int \<Rightarrow> error + dict list" where
  "scrape_pages env start end' =
     (case scrape_run env start end' of Inl e \<Rightarrow> Inl e | Inr st \<Rightarrow> Inr (rows st))"

section \<open>Specification vocabulary and a sample run\<close>

definition keys :: "dict \<Rightarrow> string list" where
  "keys d = map fst d"

definition row_keys :: "string list" where
  "row_keys = [''title'', ''image_url'', ''rating'', ''types'', ''detail_url'', ''page'']"

definition data0 :: dict where
  "data0 = [(''title'', PyStr []), (''image_url'', PyStr []), (''rating'', PyStr []),
            (''types'', PyStr []), (''detail_url'', PyStr [])]"

fun gather :: "(error + 'a list) list \<Rightarrow> error + 'a list" where
  "gather [] = Inr []"
| "gather (r # rs) =
     (case r of
        Inl e \<Rightarrow> Inl e
      | Inr xs \<Rightarrow> (case gather rs of Inl e \<Rightarrow> Inl e | Inr ys \<Rightarrow> Inr (xs @ ys)))"

definition rows_of_card :: "env \<Rightarrow> int \<Rightarrow> ustr \<Rightarrow> tag \<Rightarrow> error + dict list" where
  "rows_of_card env i page_url c =
     (case card_row env i page_url c of
        Inl e \<Rightarrow> Inl e
      | Inr None \<Rightarrow> Inr []
      | Inr (Some data) \<Rightarrow> Inr [data])"

definition page_rows :: "env \<Rightarrow> int \<Rightarrow> error + dict list" where
  "page_rows env i =
     (case fetch env (page_url_of i) of
        None \<Rightarrow> Inr []
      | Some text \<Rightarrow>
          if text = [] then Inr []
          else
            (case soup_of env text of
               Inl e \<Rightarrow> Inl e
             | Inr soup \<Rightarrow> gather (map (rows_of_card env i (page_url_of i)) (find_cards soup))))"

definition is_str :: "pyval option \<Rightarrow> bool" where
  "is_str v = (case v of Some (PyStr s) \<Rightarrow> True | _ \<Rightarrow> False)"

definition str_of :: "dict \<Rightarrow> string \<Rightarrow> ustr" where
  "str_of d k = (case getitem d k of Some (PyStr s) \<Rightarrow> s | _ \<Rightarrow> [])"




definition ascii_letter :: "nat \<Rightarrow> bool" where
  "ascii_letter c \<longleftrightarrow> (65 \<le> c \<and> c \<le> 90) \<or> (97 \<le> c \<and> c \<le> 122)"

definition scheme_char :: "nat \<Rightarrow> bool" where
  "scheme_char c \<longleftrightarrow> ascii_letter c \<or> (48 \<le> c \<and> c \<le> 57) \<or> c = 43 \<or> c = 45 \<or> c = 46"

fun scheme_rest :: "ustr \<Rightarrow> bool" where
  "scheme_rest [] = False"
| "scheme_rest (c # cs) = (c = 58 \<or> (scheme_char c \<and> scheme_rest cs))"

definition has_scheme :: "ustr \<Rightarrow> bool" where
  \<comment> \<open>an absolute URL starts with a scheme: a letter, then letters, digits, \<open>+\<close>, \<open>-\<close> or
      \<open>.\<close>, then a colon\<close>
  "has_scheme url = (case url of [] \<Rightarrow> False | c # cs \<Rightarrow> ascii_letter c \<and> scheme_rest cs)"

definition ex_isalpha :: "nat \<Rightarrow> bool" where
  "ex_isalpha c \<longleftrightarrow> ascii_letter c \<or> cjk c"

definition ex_lower :: "ustr \<Rightarrow> ustr" where
  "ex_lower s = map (\<lambda>c. if 65 \<le> c \<and> c \<le> 90 then c + 32 else c) s"

definition ex_urljoin :: "ustr \<Rightarrow> ustr \<Rightarrow> error + ustr" where
  \<comment> \<open>what \<open>urljoin\<close> gives on the references of the sample pages: \<open>//[\<close> raises
      \<open>ValueError\<close>, a reference that names another scheme after a leading space is
      returned as it is, \<open>i.jpg\<close> is placed below the root of the base and a path that
      starts with a slash is appended to the base\<close>
  "ex_urljoin base ref =
     (if ref = u ''//['' then Inl ValueError
      else if ref = u '' mailto:x'' then Inr ref
      else if ref = u ''i.jpg'' then Inr (base @ u ''/i.jpg'')
      else Inr (base @ ref))"

definition movie :: "ustr \<Rightarrow> node" where
  "movie t = Element ''div'' [''item''] []
     [Element ''a'' [] [(''href'', u ''/d/1'')]
        [Element ''h2'' [] [] [Text NavigableString t]],
      Element ''img'' [] [(''src'', u ''i.jpg'')] []]"

definition ex_http_get :: "ustr \<Rightarrow> error + ustr" where
  "ex_http_get url =
     (if url = page_url_of 1 then Inr (u ''one'')
      else if url = page_url_of 3 then Inr (u ''three'')
      else Inl RequestException)"

definition ex_parser :: "ustr \<Rightarrow> error + node list" where
  "ex_parser html =
     (if html = u ''one'' then Inr [movie (u ''One'')]
      else if html = u ''three'' then Inr [movie (u ''Three'')]
      else Inr [])"

definition ex_env :: env where
  "ex_env = \<lparr>http_get = ex_http_get, html_parser = ex_parser, urljoin = ex_urljoin,
     isalpha = ex_isalpha, lower = ex_lower, random_draw = (\<lambda>k. 1 / 2)\<rparr>"

definition ex_row :: "ustr \<Rightarrow> int \<Rightarrow> dict" where
  "ex_row t i =
     [(''title'', PyStr t), (''image_url'', PyStr (u ''https://ssr1.scrape.center/i.jpg'')),
      (''rating'', PyStr []), (''types'', PyStr []),
      (''detail_url'', PyStr (u ''https://ssr1.scrape.center/d/1'')), (''page'', PyInt i)]"

definition document :: "node list \<Rightarrow> tag" where
  "document nodes = At [] (Element ''[document]'' [] [] nodes)"

definition at_top :: "node list \<Rightarrow> node \<Rightarrow> tag" where
  \<comment> \<open>a node at the top of a document\<close>
  "at_top nodes n = At [Element ''[document]'' [] [] nodes] n"

definition fieldnames :: "string list" where
  "fieldnames = [''title'', ''image_url'', ''rating'', ''types'', ''page'', ''detail_url'']"




definition broken_card :: node where
  "broken_card = Element ''div'' [''item''] []
     [Element ''h2'' [] [] [Text NavigableString (u ''B'')],
      Element ''a'' [] [(''href'', u ''//['')] []]"

definition broken_env :: env where
  "broken_env = ex_env\<lparr>http_get := \<lambda>url. Inr (u ''page''),
                       html_parser := \<lambda>html. Inr [broken_card]\<rparr>"

fun first_match :: "tag \<Rightarrow> selector list \<Rightarrow> tag option" where
  "first_match crd [] = None"
| "first_match crd (sel # sels) =
     (case select_one crd sel of None \<Rightarrow> first_match crd sels | Some node \<Rightarrow> Some node)"

definition cascade_rating :: "tag \<Rightarrow> ustr" where
  "cascade_rating crd =
     (case first_match crd rating_selectors of None \<Rightarrow> [] | Some node \<Rightarrow> get_text node)"

definition matched_texts :: "tag \<Rightarrow> selector \<Rightarrow> ustr list" where
  "matched_texts crd sel = filter (\<lambda>txt. txt \<noteq> []) (map get_text (select crd sel))"

fun first_texts :: "tag \<Rightarrow> selector list \<Rightarrow> ustr list" where
  "first_texts crd [] = []"
| "first_texts crd (sel # sels) =
     (if matched_texts crd sel \<noteq> [] then matched_texts crd sel else first_texts crd sels)"

definition fields :: "ustr \<Rightarrow> ustr \<Rightarrow> ustr \<Rightarrow> ustr \<Rightarrow> ustr \<Rightarrow> dict" where
  \<comment> \<open>the dictionary \<open>parse_movie_card\<close> returns, by the values of its five keys\<close>
  "fields title image_url rating types detail_url =
     [(''title'', PyStr title), (''image_url'', PyStr image_url), (''rating'', PyStr rating),
      (''types'', PyStr types), (''detail_url'', PyStr detail_url)]"

definition card_of :: "node \<Rightarrow> tag" where
  \<comment> \<open>the node as the only top-level node of a document\<close>
  "card_of n = at_top [n] n"

definition empty_score :: node where
  "empty_score =
     Element ''div'' [] [(''data-score'', u ''9.0'')] [Element ''span'' [''score''] [] []]"

definition score :: node where
  "score =
     Element ''div'' [] [(''data-score'', u ''1.0'')]
       [Element ''p'' [''score''] [] [Text NavigableString (u '' 9.5 '')]]"

definition drama :: node where
  "drama =
     Element ''div'' [] []
       [Element ''span'' [''types''] [] [Text NavigableString (u ''Drama'')],
        Element ''span'' [''types''] [] [Text NavigableString (u ''Action'')],
        Element ''span'' [''types''] [] [Text NavigableString (u '' Drama '')]]"

definition empty_types :: node where
  "empty_types =
     Element ''div'' [] []
       [Element ''span'' [''types''] [] [],
        Element ''span'' [''genre''] [] [Text NavigableString (u ''Drama'')]]"

definition year :: node where
  "year =
     Element ''div'' [] [] [Element ''span'' [''types''] [] [Text NavigableString (u ''1999'')]]"

definition spec_accepts :: "env \<Rightarrow> ustr \<Rightarrow> bool" where
  \<comment> \<open>the test as the comment of line 119 states it: the text holds a letter or an
      ideograph and is short\<close>
  "spec_accepts env txt \<longleftrightarrow>
     txt \<noteq> [] \<and> length txt \<le> 40 \<and> (list_ex (isalpha env) txt \<or> list_ex cjk txt)"

definition long_text :: ustr where
  \<comment> \<open>41 times the ideograph U+4E00\<close>
  "long_text = replicate 41 19968"

definition long :: node where
  "long = Element ''div'' [] [] [Element ''span'' [] [] [Text NavigableString long_text]]"

definition nested_item :: node where
  "nested_item =
     Element ''li'' [] []
       [Element ''img'' [] [(''alt'', u ''X'')] [],
        Element ''a'' [] [(''href'', u ''/d'')] []]"

definition nested :: node where
  "nested = Element ''div'' [] [] [nested_item]"

definition nested_env :: env where
  "nested_env = ex_env\<lparr>http_get := \<lambda>url. Inr (u ''page''),
                       html_parser := \<lambda>html. Inr [nested]\<rparr>"

definition nested_outer :: tag where
  "nested_outer = at_top [nested] nested"

definition nested_inner :: tag where
  "nested_inner = At [nested, Element ''[document]'' [] [] [nested]] nested_item"

definition nested_row :: dict where
  "nested_row =
     [(''title'', PyStr (u ''X'')), (''image_url'', PyStr []), (''rating'', PyStr []),
      (''types'', PyStr []), (''detail_url'', PyStr (u ''https://ssr1.scrape.center/d'')),
      (''page'', PyInt 1)]"

section \<open>Properties\<close>

lemma keys_setitem:
  "keys (setitem d k v) = (if k \<in> set (keys d) then keys d else keys d @ [k])"
  by (induction d) (force simp: keys_def)+

lemma getitem_setitem:
  "getitem (setitem d k v) k' = (if k' = k then Some v else getitem d k')"
  by (induction d) (auto simp: getitem_def)

lemma keys_title_loop:
  "''title'' \<in> set (keys data) \<Longrightarrow> keys (title_loop crd sels data) = keys data"
  by (induction sels arbitrary: data) (auto simp: keys_setitem Let_def split: option.splits)

lemma keys_rating_loop:
  "''rating'' \<in> set (keys data) \<Longrightarrow> keys (rating_loop crd sels data) = keys data"
  by (induction sels arbitrary: data) (auto simp: keys_setitem split: option.splits)

lemma parse_movie_card_steps:
  "parse_movie_card env crd page_url =
     (case detail_step env crd (title_loop crd title_selectors data0) of
        Inl e \<Rightarrow> Inl e
      | Inr d1 \<Rightarrow>
          (case image_step env crd d1 of
             Inl e \<Rightarrow> Inl e
           | Inr d2 \<Rightarrow> Inr (types_step env crd (rating_step crd d2))))"
  by (auto simp: parse_movie_card_def data0_def Let_def split: sum.splits)

lemma parse_movie_card_Inr:
  assumes "parse_movie_card env crd page_url = Inr data"
  obtains d1 d2 where
    "detail_step env crd (title_loop crd title_selectors data0) = Inr d1"
    "image_step env crd d1 = Inr d2"
    "data = types_step env crd (rating_step crd d2)"
  using assms by (auto simp: parse_movie_card_steps split: sum.splits)

lemma keys_detail_step:
  "detail_step env crd d = Inr d' \<Longrightarrow> ''detail_url'' \<in> set (keys d) \<Longrightarrow> keys d' = keys d"
  by (auto simp: detail_step_def keys_setitem Let_def split: option.splits sum.splits)

lemma keys_image_step:
  "image_step env crd d = Inr d' \<Longrightarrow> ''image_url'' \<in> set (keys d) \<Longrightarrow> keys d' = keys d"
  by (auto simp: image_step_def keys_setitem split: option.splits sum.splits if_splits)

lemma keys_rating_step:
  "''rating'' \<in> set (keys d) \<Longrightarrow> keys (rating_step crd d) = keys d"
  by (simp add: rating_step_def keys_setitem keys_rating_loop Let_def split: option.splits)

lemma keys_types_step:
  "''types'' \<in> set (keys d) \<Longrightarrow> keys (types_step env crd d) = keys d"
  by (simp add: types_step_def keys_setitem Let_def)

lemma keys_parse_movie_card:
  assumes "parse_movie_card env crd page_url = Inr data"
  shows "keys data = [''title'', ''image_url'', ''rating'', ''types'', ''detail_url'']"
proof -
  let ?K = "[''title'', ''image_url'', ''rating'', ''types'', ''detail_url'']"
  from assms obtain d1 d2 where
    d1: "detail_step env crd (title_loop crd title_selectors data0) = Inr d1" and
    d2: "image_step env crd d1 = Inr d2" and
    data: "data = types_step env crd (rating_step crd d2)"
    by (rule parse_movie_card_Inr)
  have k0: "keys data0 = ?K" by (simp add: keys_def data0_def)
  have "keys (title_loop crd title_selectors data0) = ?K"
    using keys_title_loop [of data0 crd title_selectors] k0 by simp
  then have "keys d1 = ?K"
    using keys_detail_step [OF d1] by simp
  then have "keys d2 = ?K"
    using keys_image_step [OF d2] by simp
  then have "keys (rating_step crd d2) = ?K"
    using keys_rating_step [of d2 crd] by simp
  then show ?thesis
    using keys_types_step [of "rating_step crd d2" env crd] by (simp add: data)
qed

lemma card_row_Some:
  assumes "card_row env i page_url c = Inr (Some data)"
  obtains p where "parse_movie_card env c page_url = Inr p"
    and "data = setitem p ''page'' (PyInt i) \<or>
         (\<exists>alt. data = setitem (setitem p ''page'' (PyInt i)) ''title'' (PyStr (strip alt)))"
    and "truthy (getitem data ''title'')"
  using assms
  by (auto simp: card_row_def Let_def split: sum.splits if_splits option.splits)

lemma keys_card_row:
  assumes "card_row env i page_url c = Inr (Some data)"
  shows "keys data = row_keys"
proof -
  from assms obtain p where p: "parse_movie_card env c page_url = Inr p"
    and d: "data = setitem p ''page'' (PyInt i) \<or>
         (\<exists>alt. data = setitem (setitem p ''page'' (PyInt i)) ''title'' (PyStr (strip alt)))"
    by (rule card_row_Some)
  from d show ?thesis
    using keys_parse_movie_card [OF p] by (auto simp: keys_setitem row_keys_def)
qed

lemma gather_append:
  "gather (rs @ ss) =
     (case gather rs of
        Inl e \<Rightarrow> Inl e
      | Inr xs \<Rightarrow> (case gather ss of Inl e \<Rightarrow> Inl e | Inr ys \<Rightarrow> Inr (xs @ ys)))"
  by (induction rs) (auto split: sum.splits)

lemma gather_Inr:
  "gather rs = Inr xs \<Longrightarrow> x \<in> set xs \<Longrightarrow> \<exists>ys. Inr ys \<in> set rs \<and> x \<in> set ys"
proof (induction rs arbitrary: xs)
  case Nil
  then show ?case by simp
next
  case (Cons r rs)
  from Cons.prems(1) obtain ys zs where
    r: "r = Inr ys" and g: "gather rs = Inr zs" and xs: "xs = ys @ zs"
    by (auto split: sum.splits)
  from Cons.prems(2) xs have "x \<in> set ys \<or> x \<in> set zs"
    by simp
  then show ?case
  proof
    assume "x \<in> set ys"
    with r show ?thesis by auto
  next
    assume "x \<in> set zs"
    from Cons.IH [OF g this] show ?thesis by auto
  qed
qed

lemma gather_all_Inr:
  "gather (map Inr xss) = Inr (concat xss)"
  by (induction xss) auto

lemma cards_rows_eq:
  "cards_rows env i page_url cs rws =
     (case gather (map (rows_of_card env i page_url) cs) of
        Inl e \<Rightarrow> Inl e
      | Inr xs \<Rightarrow> Inr (rws @ xs))"
  by (induction cs arbitrary: rws)
     (auto simp: rows_of_card_def split: sum.splits option.splits)

lemma rows_pages_loop:
  "(case pages_loop env is st of Inl e \<Rightarrow> Inl e | Inr st' \<Rightarrow> Inr (rows st')) =
     (case gather (map (page_rows env) is) of
        Inl e \<Rightarrow> Inl e
      | Inr xs \<Rightarrow> Inr (rows st @ xs))"
proof (induction "is" arbitrary: st)
  case Nil
  show ?case by simp
next
  case (Cons i "is")
  show ?case
    by (simp add: Let_def page_rows_def cards_rows_eq Cons.IH
          split: option.splits sum.splits)
qed

lemma scrape_pages_eq:
  "scrape_pages env start end' = gather (map (page_rows env) [start..end'])"
  using rows_pages_loop [of env "[start..end']" "\<lparr>rows = [], events = [], draws = 0\<rparr>"]
  by (simp add: scrape_pages_def scrape_run_def split: sum.splits)

lemma in_page_rows:
  assumes "page_rows env i = Inr rws" "r \<in> set rws"
  obtains c where "card_row env i (page_url_of i) c = Inr (Some r)"
proof -
  from assms obtain soup where
    g: "gather (map (rows_of_card env i (page_url_of i)) (find_cards soup)) = Inr rws"
    by (auto simp: page_rows_def split: option.splits if_splits sum.splits)
  from gather_Inr [OF g assms(2)] obtain ys c where
    "rows_of_card env i (page_url_of i) c = Inr ys" "r \<in> set ys"
    by auto metis
  then have "card_row env i (page_url_of i) c = Inr (Some r)"
    by (auto simp: rows_of_card_def split: sum.splits option.splits)
  then show ?thesis ..
qed

lemma in_scrape_pages:
  assumes "scrape_pages env start end' = Inr rws" "r \<in> set rws"
  obtains i c where "i \<in> set [start..end']" "card_row env i (page_url_of i) c = Inr (Some r)"
proof -
  from assms(1) have g: "gather (map (page_rows env) [start..end']) = Inr rws"
    by (simp add: scrape_pages_eq)
  from gather_Inr [OF g assms(2)] obtain ys i where
    i: "i \<in> set [start..end']" and "page_rows env i = Inr ys" "r \<in> set ys"
    by auto metis
  then obtain c where "card_row env i (page_url_of i) c = Inr (Some r)"
    by (auto elim: in_page_rows)
  with i show ?thesis ..
qed

lemma is_str_setitem: "is_str (getitem (setitem d k (PyStr s)) k)"
  by (simp add: getitem_setitem is_str_def)

lemma is_str_setitem_any:
  "is_str (getitem d k') \<Longrightarrow> is_str (getitem (setitem d k (PyStr s)) k')"
  by (simp add: getitem_setitem is_str_def)

lemma is_str_title_loop:
  "is_str (getitem data k) \<Longrightarrow> is_str (getitem (title_loop crd sels data) k)"
  by (induction sels arbitrary: data)
     (simp_all add: Let_def is_str_setitem_any split: option.splits)

lemma is_str_rating_loop:
  "is_str (getitem data k) \<Longrightarrow> is_str (getitem (rating_loop crd sels data) k)"
  by (induction sels arbitrary: data) (simp_all add: is_str_setitem_any split: option.splits)

lemma is_str_detail_step:
  "detail_step env crd data = Inr d \<Longrightarrow> is_str (getitem data k) \<Longrightarrow> is_str (getitem d k)"
  by (auto simp: detail_step_def Let_def is_str_setitem_any split: option.splits sum.splits)

lemma is_str_image_step:
  "image_step env crd data = Inr d \<Longrightarrow> is_str (getitem data k) \<Longrightarrow> is_str (getitem d k)"
  by (auto simp: image_step_def is_str_setitem_any split: option.splits sum.splits if_splits)

lemma is_str_rating_step:
  "is_str (getitem data k) \<Longrightarrow> is_str (getitem (rating_step crd data) k)"
  by (simp add: rating_step_def Let_def is_str_setitem_any is_str_rating_loop
        split: option.splits)

lemma is_str_types_step:
  "is_str (getitem data k) \<Longrightarrow> is_str (getitem (types_step env crd data) k)"
  by (simp add: types_step_def Let_def is_str_setitem_any)

lemma is_str_parse:
  assumes "parse_movie_card env crd page_url = Inr p"
    and "k \<in> set [''title'', ''image_url'', ''rating'', ''types'', ''detail_url'']"
  shows "is_str (getitem p k)"
proof -
  from assms(1) obtain d1 d2 where
    d1: "detail_step env crd (title_loop crd title_selectors data0) = Inr d1" and
    d2: "image_step env crd d1 = Inr d2" and
    p: "p = types_step env crd (rating_step crd d2)"
    by (rule parse_movie_card_Inr)
  have "is_str (getitem data0 k)"
    using assms(2) by (auto simp: data0_def getitem_def is_str_def)
  then have "is_str (getitem (title_loop crd title_selectors data0) k)"
    by (rule is_str_title_loop)
  then have "is_str (getitem d1 k)"
    by (rule is_str_detail_step [OF d1])
  then have "is_str (getitem d2 k)"
    by (rule is_str_image_step [OF d2])
  then show ?thesis
    unfolding p by (intro is_str_types_step is_str_rating_step)
qed

lemma card_row_title:
  assumes "card_row env i page_url c = Inr (Some data)"
  shows "\<exists>t. getitem data ''title'' = Some (PyStr t) \<and> t \<noteq> []"
proof -
  from assms obtain p where p: "parse_movie_card env c page_url = Inr p"
    and d: "data = setitem p ''page'' (PyInt i) \<or>
         (\<exists>alt. data = setitem (setitem p ''page'' (PyInt i)) ''title'' (PyStr (strip alt)))"
    and t: "truthy (getitem data ''title'')"
    by (rule card_row_Some)
  have "is_str (getitem p ''title'')"
    using is_str_parse [OF p] by simp
  with d have "is_str (getitem data ''title'')"
    by (auto simp: getitem_setitem is_str_def)
  with t show ?thesis
    by (auto simp: is_str_def split: option.splits pyval.splits)
qed

lemma getitem_rating_loop_other:
  "k \<noteq> ''rating'' \<Longrightarrow> getitem (rating_loop crd sels data) k = getitem data k"
  by (induction sels arbitrary: data) (auto simp: getitem_setitem split: option.splits)

lemma getitem_title_loop_other:
  "k \<noteq> ''title'' \<Longrightarrow> getitem (title_loop crd sels data) k = getitem data k"
  by (induction sels arbitrary: data) (auto simp: getitem_setitem Let_def split: option.splits)

lemma getitem_detail_step_other:
  "detail_step env crd data = Inr d \<Longrightarrow> k \<noteq> ''detail_url'' \<Longrightarrow> getitem d k = getitem data k"
  by (auto simp: detail_step_def getitem_setitem Let_def split: option.splits sum.splits)

lemma getitem_image_step_other:
  "image_step env crd data = Inr d \<Longrightarrow> k \<noteq> ''image_url'' \<Longrightarrow> getitem d k = getitem data k"
  by (auto simp: image_step_def getitem_setitem split: option.splits sum.splits if_splits)

lemma getitem_rating_step_other:
  "k \<noteq> ''rating'' \<Longrightarrow> getitem (rating_step crd data) k = getitem data k"
  by (simp add: rating_step_def getitem_setitem getitem_rating_loop_other Let_def
           split: option.splits)

lemma getitem_types_step_other:
  "k \<noteq> ''types'' \<Longrightarrow> getitem (types_step env crd data) k = getitem data k"
  by (simp add: types_step_def getitem_setitem Let_def)






lemmas dom_defs = children_of_def find_all_def find_tag_def select_def select_one_def
  selector_matches_def compound_matches_def by_name_def by_class_def get_attr_def get_text_def
  interesting_string_types_def

lemmas step_defs = parse_movie_card_def title_selectors_def detail_step_def py_or_def
  image_step_def rating_selectors_def rating_step_def type_selectors_def types_heuristic_def
  heuristic_accepts_def denylist_def clean_types_def types_step_def fromkeys_def
  getitem_def

lemmas str_defs = u_def strip_def isspace_def replace_newline_def cjk_def

lemmas ex_defs = ex_env_def ex_urljoin_def ex_isalpha_def ex_lower_def has_scheme_def
  ascii_letter_def scheme_char_def BASE_def

lemma page_urls:
  "page_url_of 1 = u ''https://ssr1.scrape.center/page/1''"
  "page_url_of 2 = u ''https://ssr1.scrape.center/page/2''"
  "page_url_of 3 = u ''https://ssr1.scrape.center/page/3''"
  by (simp_all add: page_url_of_def BASE_def u_def str_int_def)

lemma ex_fetch:
  "fetch ex_env (page_url_of 1) = Some (u ''one'')"
  "fetch ex_env (page_url_of 2) = None"
  "fetch ex_env (page_url_of 3) = Some (u ''three'')"
  by (simp_all add: fetch_def ex_env_def ex_http_get_def page_urls u_def)

lemma ex_soup:
  "soup_of ex_env (u ''one'') = Inr (document [movie (u ''One'')])"
  "soup_of ex_env (u ''three'') = Inr (document [movie (u ''Three'')])"
  by (simp_all add: soup_of_def ex_env_def ex_parser_def document_def u_def)

lemma ex_find_cards:
  "find_cards (document [movie t]) = [at_top [movie t] (movie t)]"
  by (simp add: find_cards_def cards_loop.simps card_selectors_def possible_cards_def
        document_def at_top_def movie_def dom_defs)

lemma ex_parse:
  "t \<noteq> [] \<Longrightarrow> strip t = t \<Longrightarrow>
   card_row ex_env i url (at_top [movie t] (movie t)) = Inr (Some (ex_row t i))"
  by (simp add: card_row_def step_defs dom_defs movie_def at_top_def ex_defs ex_row_def u_def)

lemma ex_page_rows:
  "page_rows ex_env 1 = Inr [ex_row (u ''One'') 1]"
  "page_rows ex_env 2 = Inr []"
  "page_rows ex_env 3 = Inr [ex_row (u ''Three'') 3]"
proof -
  have s: "strip (u ''One'') = u ''One''" "strip (u ''Three'') = u ''Three''"
    by (simp_all add: str_defs)
  have n: "u ''One'' \<noteq> []" "u ''Three'' \<noteq> []" "u ''one'' \<noteq> []" "u ''three'' \<noteq> []"
    by (simp_all add: u_def)
  show "page_rows ex_env 1 = Inr [ex_row (u ''One'') 1]"
    by (simp add: page_rows_def ex_fetch ex_soup ex_find_cards n rows_of_card_def
          ex_parse [OF n(1) s(1)])
  show "page_rows ex_env 2 = Inr []"
    by (simp add: page_rows_def ex_fetch)
  show "page_rows ex_env 3 = Inr [ex_row (u ''Three'') 3]"
    by (simp add: page_rows_def ex_fetch ex_soup ex_find_cards n rows_of_card_def
          ex_parse [OF n(2) s(2)])
qed

lemma ex_run:
  "scrape_pages ex_env 1 3 = Inr [ex_row (u ''One'') 1, ex_row (u ''Three'') 3]"
  by (simp add: scrape_pages_eq upto.simps ex_page_rows)




lemma ex_row_in_run:
  "scrape_pages ex_env 1 3 = Inr [ex_row (u ''One'') 1, ex_row (u ''Three'') 3]"
  "ex_row (u ''One'') 1 \<in> set [ex_row (u ''One'') 1, ex_row (u ''Three'') 3]"
  by (simp_all add: ex_run)


lemma broken_run: "scrape_pages broken_env 1 1 = Inl ValueError"
proof -
  have f: "fetch broken_env (page_url_of 1) = Some (u ''page'')"
    by (simp add: fetch_def broken_env_def)
  have s: "soup_of broken_env (u ''page'') = Inr (document [broken_card])"
    by (simp add: soup_of_def broken_env_def document_def)
  have c: "find_cards (document [broken_card]) = [at_top [broken_card] broken_card]"
    by (simp add: find_cards_def cards_loop.simps card_selectors_def possible_cards_def
          document_def at_top_def broken_card_def dom_defs)
  have r: "card_row broken_env 1 url (at_top [broken_card] broken_card) = Inl ValueError"
    for url
    by (simp add: card_row_def step_defs dom_defs broken_card_def at_top_def broken_env_def
          ex_defs str_defs)
  have "page_rows broken_env 1 = Inl ValueError"
    by (simp add: page_rows_def f s c r rows_of_card_def) (simp add: u_def)
  then show ?thesis
    by (simp add: scrape_pages_eq upto.simps)
qed



text \<open>
  Claim C2. A row reaches the output list only when its title is non-empty after the
  selector cascade and the image-alt fallback: every row of the list a run returns has a
  title that is a non-empty string.
\<close>

theorem title_never_empty:
  assumes "scrape_pages env start end' = Inr rws" and "r \<in> set rws"
  shows "\<exists>t. getitem r ''title'' = Some (PyStr t) \<and> t \<noteq> []"
proof -
  from assms obtain i c where "card_row env i (page_url_of i) c = Inr (Some r)"
    by (rule in_scrape_pages)
  then show ?thesis
    by (rule card_row_title)
qed

theorem title_never_empty_witness:
  "\<exists>t. getitem (ex_row (u ''One'') 1) ''title'' = Some (PyStr t) \<and> t \<noteq> []"
  by (rule title_never_empty [OF ex_row_in_run])




text \<open>
  Claim C7, as amended. Every row handed to the accumulator has exactly the six keys of
  the schema, each once and none absent, in the order in which the dictionary received
  them: \<open>title, image_url, rating, types, detail_url, page\<close>. The schema order, with
  \<open>page\<close> before \<open>detail_url\<close>, is not the order of the keys of the row; the counterexample
  below is a row of a concrete run.
\<close>

theorem row_keys_in_insertion_order:
  assumes "scrape_pages env start end' = Inr rws" and "r \<in> set rws"
  shows "keys r = [''title'', ''image_url'', ''rating'', ''types'', ''detail_url'', ''page''] \<and>
         distinct (keys r) \<and> set (keys r) = set fieldnames"
proof -
  from assms obtain i c where "card_row env i (page_url_of i) c = Inr (Some r)"
    by (rule in_scrape_pages)
  then have "keys r = row_keys"
    by (rule keys_card_row)
  then show ?thesis
    by (auto simp: row_keys_def fieldnames_def)
qed

theorem row_keys_in_insertion_order_witness:
  "keys (ex_row (u ''One'') 1) =
     [''title'', ''image_url'', ''rating'', ''types'', ''detail_url'', ''page''] \<and>
   distinct (keys (ex_row (u ''One'') 1)) \<and> set (keys (ex_row (u ''One'') 1)) = set fieldnames"
  by (rule row_keys_in_insertion_order [OF ex_row_in_run])

theorem row_keys_schema_order_counterexample:
  "scrape_pages ex_env 1 3 = Inr [ex_row (u ''One'') 1, ex_row (u ''Three'') 3] \<and>
   keys (ex_row (u ''One'') 1) \<noteq> fieldnames"
  by (simp add: ex_run) (simp add: keys_def ex_row_def fieldnames_def)

lemma rating_loop_eq:
  "rating_loop crd sels data =
     (case first_match crd sels of
        None \<Rightarrow> data
      | Some node \<Rightarrow> setitem data ''rating'' (PyStr (get_text node)))"
  by (induction sels) (simp_all split: option.splits)

lemma str_of_setitem:
  "str_of (setitem d k (PyStr s)) k' = (if k' = k then s else str_of d k')"
  by (simp add: str_of_def getitem_setitem)

lemma truthy_str: "is_str (getitem d k) \<Longrightarrow> truthy (getitem d k) \<longleftrightarrow> str_of d k \<noteq> []"
  by (auto simp: is_str_def str_of_def split: option.splits pyval.splits)

lemma rating_step_eq:
  assumes "str_of data ''rating'' = []" "is_str (getitem data ''rating'')"
  shows "str_of (rating_step crd data) ''rating'' =
     (if cascade_rating crd \<noteq> [] then cascade_rating crd
      else case get_attr crd ''data-score'' of None \<Rightarrow> [] | Some v \<Rightarrow> v)"
proof (cases "first_match crd rating_selectors")
  case None
  then show ?thesis
    using assms
    by (simp add: rating_step_def rating_loop_eq cascade_rating_def truthy_str str_of_setitem
          split: option.splits)
next
  case (Some node)
  then show ?thesis
    using assms
    by (simp add: rating_step_def rating_loop_eq cascade_rating_def str_of_setitem
          getitem_setitem split: option.splits)
qed

lemma parse_before_rating:
  assumes "parse_movie_card env crd page_url = Inr p"
  obtains d2 where "p = types_step env crd (rating_step crd d2)"
    and "getitem d2 ''rating'' = Some (PyStr [])" and "getitem d2 ''types'' = Some (PyStr [])"
proof -
  from assms obtain d1 d2 where
    d1: "detail_step env crd (title_loop crd title_selectors data0) = Inr d1" and
    d2: "image_step env crd d1 = Inr d2" and
    p: "p = types_step env crd (rating_step crd d2)"
    by (rule parse_movie_card_Inr)
  have "getitem d2 k = getitem data0 k" if "k = ''rating'' \<or> k = ''types''" for k
    using that getitem_image_step_other [OF d2, of k] getitem_detail_step_other [OF d1, of k]
      getitem_title_loop_other [of k crd title_selectors data0]
    by auto
  then have "getitem d2 ''rating'' = Some (PyStr [])" "getitem d2 ''types'' = Some (PyStr [])"
    by (simp_all add: data0_def getitem_def)
  with p show ?thesis
    using that by blast
qed

lemma rating_parse_eq:
  assumes "parse_movie_card env crd page_url = Inr p"
  shows "str_of p ''rating'' =
     (if cascade_rating crd \<noteq> [] then cascade_rating crd
      else case get_attr crd ''data-score'' of None \<Rightarrow> [] | Some v \<Rightarrow> v)"
proof -
  from assms obtain d2 where p: "p = types_step env crd (rating_step crd d2)"
    and r: "getitem d2 ''rating'' = Some (PyStr [])"
    by (rule parse_before_rating)
  have "str_of d2 ''rating'' = []" "is_str (getitem d2 ''rating'')"
    by (simp_all add: str_of_def is_str_def r)
  then have "str_of (rating_step crd d2) ''rating'' =
     (if cascade_rating crd \<noteq> [] then cascade_rating crd
      else case get_attr crd ''data-score'' of None \<Rightarrow> [] | Some v \<Rightarrow> v)"
    by (rule rating_step_eq)
  then show ?thesis
    by (simp add: p str_of_def getitem_types_step_other)
qed

lemma types_loop_eq: "types_loop crd sels [] = first_texts crd sels"
  by (induction sels) (simp_all add: matched_texts_def Let_def)

lemma first_texts_append:
  assumes "\<forall>s\<in>set pre. matched_texts crd s = []"
  shows "first_texts crd (pre @ sels) = first_texts crd sels"
  using assms by (induction pre) simp_all

lemma types_step_eq:
  "str_of data ''types'' = [] \<Longrightarrow>
   str_of (types_step env crd data) ''types'' =
     str_join (u '';'')
       (fromkeys (clean_types env (types_heuristic env crd (first_texts crd type_selectors))))"
  by (simp add: types_step_def types_loop_eq Let_def str_of_setitem clean_types_def
        fromkeys_def)

lemma types_parse_eq:
  assumes "parse_movie_card env crd page_url = Inr p"
  shows "str_of p ''types'' =
     str_join (u '';'')
       (fromkeys (clean_types env (types_heuristic env crd (first_texts crd type_selectors))))"
proof -
  from assms obtain d2 where p: "p = types_step env crd (rating_step crd d2)"
    and t: "getitem d2 ''types'' = Some (PyStr [])"
    by (rule parse_before_rating)
  have "str_of (rating_step crd d2) ''types'' = []"
    by (simp add: str_of_def getitem_rating_step_other t)
  then show ?thesis
    unfolding p by (rule types_step_eq)
qed

lemma fromkeys_foldr:
  "foldr (\<lambda>k d. if k \<in> set d then d else d @ [k]) ys [] = rev (remdups ys)"
  by (induction ys) auto

lemma fromkeys_eq: "fromkeys xs = rev (remdups (rev xs))"
  by (simp add: fromkeys_def foldl_conv_foldr fromkeys_foldr)

lemma fromkeys_distinct: "distinct (fromkeys xs)" "set (fromkeys xs) = set xs"
  by (simp_all add: fromkeys_eq)

lemma strip_no_space_ends:
  assumes "strip s \<noteq> []"
  shows "\<not> isspace (hd (strip s))" "\<not> isspace (last (strip s))"
proof -
  let ?a = "dropWhile isspace s"
  let ?b = "dropWhile isspace (rev ?a)"
  from assms have b: "?b \<noteq> []"
    by (simp add: strip_def)
  then have "\<not> isspace (hd ?b)"
    by (rule hd_dropWhile)
  then show "\<not> isspace (last (strip s))"
    using b by (simp add: strip_def last_rev)
  from b have a: "?a \<noteq> []"
    by (auto dest: set_dropWhileD)
  then have ha: "\<not> isspace (hd ?a)"
    by (rule hd_dropWhile)
  have "last (rev ?a) = hd ?a"
    using a by (simp add: last_rev)
  moreover have "last ?b = last (rev ?a)"
    using b by (metis append_Nil2 last_appendR takeWhile_dropWhile_id)
  moreover have "hd (strip s) = last ?b"
    using b by (simp add: strip_def hd_rev)
  ultimately show "\<not> isspace (hd (strip s))"
    using ha by simp
qed

lemma replace_newline_no_newline: "10 \<notin> set (replace_newline s)"
  by (auto simp: replace_newline_def)

lemma strip_subset: "set (strip s) \<subseteq> set s"
proof -
  have d: "set (dropWhile isspace xs) \<subseteq> set xs" for xs :: ustr
    by (auto dest: set_dropWhileD)
  have "set (strip s) = set (dropWhile isspace (rev (dropWhile isspace s)))"
    by (simp add: strip_def)
  also have "\<dots> \<subseteq> set (rev (dropWhile isspace s))"
    by (rule d)
  also have "\<dots> \<subseteq> set s"
    using d [of s] by simp
  finally show ?thesis .
qed

lemma clean_types_iff:
  "e \<in> set (clean_types env found) \<longleftrightarrow>
     (\<exists>t\<in>set found. e = strip (replace_newline t)) \<and> e \<noteq> [] \<and>
     lower env e \<notin> {u ''new'', u ''2020'', u ''2021''}"
  by (auto simp: clean_types_def denylist_def)

lemma clean_types_stripped:
  assumes "e \<in> set (clean_types env found)"
  shows "10 \<notin> set e" "\<not> isspace (hd e)" "\<not> isspace (last e)"
proof -
  from assms obtain t where e: "e = strip (replace_newline t)" "e \<noteq> []"
    by (auto simp: clean_types_iff)
  show "10 \<notin> set e"
    using strip_subset [of "replace_newline t"] replace_newline_no_newline [of t] e by auto
  show "\<not> isspace (hd e)" "\<not> isspace (last e)"
    using strip_no_space_ends [of "replace_newline t"] e by simp_all
qed

lemma descendants_trans:
  "d \<in> set (descendants ps e) \<Longrightarrow> x \<in> set (descendants (parents d) (self d)) \<Longrightarrow>
   x \<in> set (descendants ps e)"
proof (induction ps e rule: descendants.induct)
  case (1 ps k s)
  then show ?case by simp
next
  case (2 ps n cs as kids)
  let ?e = "Element n cs as kids"
  from "2.prems"(1) obtain k where k: "k \<in> set kids"
      and d: "(d = At (?e # ps) k \<and> (\<exists>n' cs' as' kids'. k = Element n' cs' as' kids'))
              \<or> d \<in> set (descendants (?e # ps) k)"
    by (auto split: node.splits)
  from d have "x \<in> set (descendants (?e # ps) k)"
  proof
    assume "d = At (?e # ps) k \<and> (\<exists>n' cs' as' kids'. k = Element n' cs' as' kids')"
    with "2.prems"(2) show ?thesis by auto
  next
    assume "d \<in> set (descendants (?e # ps) k)"
    with "2.IH" [OF k] "2.prems"(2) show ?thesis by blast
  qed
  with k show ?case by auto
qed

lemma children_of_trans:
  "q \<in> set (children_of p) \<Longrightarrow> x \<in> set (children_of q) \<Longrightarrow> x \<in> set (children_of p)"
  unfolding children_of_def by (rule descendants_trans)

lemma find_all_trans:
  "q \<in> set (find_all p names) \<Longrightarrow> x \<in> set (find_all q ns) \<Longrightarrow> x \<in> set (find_all p ns)"
  by (auto simp: find_all_def intro: children_of_trans)

lemma find_tag_up:
  assumes "q \<in> set (find_all p names)" "find_tag q n \<noteq> None"
  shows "find_tag p n \<noteq> None"
proof -
  from assms(2) have "find_all q [n] \<noteq> []"
    by (cases "find_all q [n]") (simp_all add: find_tag_def)
  then obtain x where "x \<in> set (find_all q [n])"
    by (cases "find_all q [n]") auto
  with assms(1) have "x \<in> set (find_all p [n])"
    by (rule find_all_trans)
  then show ?thesis
    by (cases "find_all p [n]") (simp_all add: find_tag_def)
qed

lemma nested_cards:
  assumes "cards_loop soup card_selectors = []"
    and "p \<in> set (find_all soup [''article'', ''li'', ''div''])"
    and "q \<in> set (find_all p [''article'', ''li'', ''div''])"
    and "find_tag q ''img'' \<noteq> None" and "find_tag q ''a'' \<noteq> None"
  shows "find_cards soup = possible_cards soup"
    and "p \<in> set (find_cards soup)" and "q \<in> set (find_cards soup)"
proof -
  show c: "find_cards soup = possible_cards soup"
    using assms(1) by (simp add: find_cards_def)
  have "find_tag p ''img'' \<noteq> None" "find_tag p ''a'' \<noteq> None"
    using find_tag_up [OF assms(3) assms(4)] find_tag_up [OF assms(3) assms(5)]
    by simp_all
  with assms(2) show "p \<in> set (find_cards soup)"
    by (simp add: c possible_cards_def)
  have "q \<in> set (find_all soup [''article'', ''li'', ''div''])"
    using assms(2,3) by (rule find_all_trans)
  with assms(4,5) show "q \<in> set (find_cards soup)"
    by (simp add: c possible_cards_def)
qed

lemmas eval_defs = dom_defs str_defs matched_texts_def cascade_rating_def
  rating_selectors_def type_selectors_def types_heuristic_def heuristic_accepts_def
  clean_types_def denylist_def fromkeys_def ex_defs

lemmas parse_defs = step_defs dom_defs str_defs ex_defs card_of_def at_top_def fields_def

lemma ex_empty_score:
  "select_one (card_of empty_score) [by_class ''score''] \<noteq> None"
  "parse_movie_card ex_env (card_of empty_score) (page_url_of 1) =
     Inr (fields [] [] (u ''9.0'') [] [])"
  by (simp_all add: empty_score_def parse_defs)

lemma ex_score:
  "cascade_rating (card_of score) = u ''9.5''"
  "parse_movie_card ex_env (card_of score) (page_url_of 1) =
     Inr (fields [] [] (u ''9.5'') [] [])"
  by (simp_all add: score_def parse_defs cascade_rating_def)

lemma ex_drama:
  "matched_texts (card_of drama) [by_class ''types''] = [u ''Drama'', u ''Action'', u ''Drama'']"
  "parse_movie_card ex_env (card_of drama) (page_url_of 1) =
     Inr (fields [] [] [] (u ''Drama;Action'') [])"
  by (simp_all add: drama_def parse_defs matched_texts_def)

lemma ex_empty_types:
  "select (card_of empty_types) [by_class ''types''] \<noteq> []"
  "parse_movie_card ex_env (card_of empty_types) (page_url_of 1) =
     Inr (fields [] [] [] (u ''Drama'') [])"
  by (simp_all add: empty_types_def parse_defs)

lemma ex_year:
  "parse_movie_card ex_env (card_of year) (page_url_of 1) =
     Inr (fields [] [] [] (u ''1999'') [])"
  by (simp add: year_def parse_defs)

lemma str_of_fields:
  "str_of (fields t i r ty d) ''rating'' = r"
  "str_of (fields t i r ty d) ''types'' = ty"
  by (simp_all add: str_of_def fields_def getitem_def)

text \<open>
  Claim C9, as amended. The rating is the text of the first node matched by the first
  rating selector that matches anything; the \<open>data-score\<close> attribute of the container is
  used whenever that text is empty, so also when a selector matched a node without text,
  and not only when no selector matched.
\<close>

theorem rating_fallback_on_empty_text:
  assumes "parse_movie_card env crd page_url = Inr p"
  shows "is_str (getitem p ''rating'') \<and>
         str_of p ''rating'' =
           (if cascade_rating crd \<noteq> [] then cascade_rating crd
            else case get_attr crd ''data-score'' of None \<Rightarrow> [] | Some v \<Rightarrow> v)"
  using rating_parse_eq [OF assms] is_str_parse [OF assms, of "''rating''"] by simp

theorem rating_fallback_on_empty_text_witness:
  "is_str (getitem (fields [] [] (u ''9.5'') [] []) ''rating'') \<and>
   str_of (fields [] [] (u ''9.5'') [] []) ''rating'' = cascade_rating (card_of score) \<and>
   cascade_rating (card_of score) = u ''9.5''"
proof -
  have n: "cascade_rating (card_of score) \<noteq> []"
    by (simp add: ex_score u_def)
  show ?thesis
    using rating_fallback_on_empty_text [OF ex_score(2)] n
    by (simp add: ex_score(1))
qed

theorem rating_fallback_only_without_match_counterexample:
  "select_one (card_of empty_score) [by_class ''score''] \<noteq> None \<and>
   parse_movie_card ex_env (card_of empty_score) (page_url_of 1) =
     Inr (fields [] [] (u ''9.0'') [] []) \<and>
   str_of (fields [] [] (u ''9.0'') [] []) ''rating'' = u ''9.0''"
  using ex_empty_score by (simp add: str_of_fields)

text \<open>
  Claim C8, as amended. The first selector of the cascade that yields at least one
  non-empty text wins: a selector whose matched nodes all have empty text is passed over.
  The non-empty texts of the nodes matched by the winning selector are collected in
  document order and cleaned, each value is kept at its first occurrence only, and the
  values are joined with a semicolon.
\<close>

theorem types_first_selector_with_text_wins:
  assumes "parse_movie_card env crd page_url = Inr p"
    and "type_selectors = pre @ sel # post"
    and "\<forall>s\<in>set pre. matched_texts crd s = []"
    and "matched_texts crd sel \<noteq> []"
  shows "str_of p ''types'' =
           str_join (u '';'') (fromkeys (clean_types env (matched_texts crd sel))) \<and>
         fromkeys (clean_types env (matched_texts crd sel)) =
           rev (remdups (rev (clean_types env (matched_texts crd sel)))) \<and>
         distinct (fromkeys (clean_types env (matched_texts crd sel))) \<and>
         set (fromkeys (clean_types env (matched_texts crd sel))) =
           set (clean_types env (matched_texts crd sel))"
proof -
  have "first_texts crd (pre @ sel # post) = first_texts crd (sel # post)"
    using assms(3) by (rule first_texts_append)
  also have "\<dots> = matched_texts crd sel"
    using assms(4) by simp
  finally have "first_texts crd type_selectors = matched_texts crd sel"
    by (simp only: assms(2))
  then show ?thesis
    using assms(4)
    by (simp add: types_parse_eq [OF assms(1)] types_heuristic_def fromkeys_distinct
          fromkeys_eq [symmetric])
qed

theorem types_first_selector_with_text_wins_witness:
  "matched_texts (card_of drama) [by_class ''types''] = [u ''Drama'', u ''Action'', u ''Drama''] \<and>
   str_of (fields [] [] [] (u ''Drama;Action'') []) ''types'' =
     str_join (u '';'')
       (fromkeys (clean_types ex_env (matched_texts (card_of drama) [by_class ''types''])))"
proof -
  have a: "type_selectors = [] @ [by_class ''types''] #
      [[by_class ''genre''], [by_class ''genres''], [by_class ''categories''],
       [by_class ''meta''], [by_class ''info'', by_class ''tags'']]"
    by (simp add: type_selectors_def)
  have b: "\<forall>s\<in>set []. matched_texts (card_of drama) s = []"
    by simp
  have c: "matched_texts (card_of drama) [by_class ''types''] \<noteq> []"
    by (simp add: ex_drama(1))
  from types_first_selector_with_text_wins [OF ex_drama(2) a b c] show ?thesis
    by (simp add: ex_drama(1))
qed

theorem types_first_matching_selector_counterexample:
  "select (card_of empty_types) [by_class ''types''] \<noteq> [] \<and>
   parse_movie_card ex_env (card_of empty_types) (page_url_of 1) =
     Inr (fields [] [] [] (u ''Drama'') []) \<and>
   str_of (fields [] [] [] (u ''Drama'') []) ''types'' = u ''Drama''"
  using ex_empty_types by (simp add: str_of_fields)

text \<open>
  Claim C5, as amended. Every collected string has its newlines replaced by spaces and
  is stripped; an entry is dropped exactly when it is then empty or its lower-case form
  is one of \<open>new\<close>, \<open>2020\<close>, \<open>2021\<close>. Other year strings are kept. A kept entry holds no
  newline and neither starts nor ends with whitespace.
\<close>

theorem clean_drops_exactly_denylist:
  "(e \<in> set (clean_types env found) \<longleftrightarrow>
      (\<exists>t\<in>set found. e = strip (replace_newline t)) \<and> e \<noteq> [] \<and>
      lower env e \<notin> {u ''new'', u ''2020'', u ''2021''}) \<and>
   (e \<in> set (clean_types env found) \<longrightarrow>
      10 \<notin> set e \<and> \<not> isspace (hd e) \<and> \<not> isspace (last e))"
  using clean_types_iff [of e env found] clean_types_stripped [of e env found] by blast

theorem clean_drops_exactly_denylist_witness:
  "u ''Drama'' \<in> set (clean_types ex_env [32 # u ''Drama'' @ [10], u ''New'', u ''2020'']) \<and>
   clean_types ex_env [32 # u ''Drama'' @ [10], u ''New'', u ''2020''] = [u ''Drama''] \<and>
   10 \<notin> set (u ''Drama'') \<and> \<not> isspace (hd (u ''Drama'')) \<and> \<not> isspace (last (u ''Drama''))"
proof -
  have m: "clean_types ex_env [32 # u ''Drama'' @ [10], u ''New'', u ''2020''] = [u ''Drama'']"
    by (simp add: eval_defs)
  from clean_drops_exactly_denylist
    [of "u ''Drama''" ex_env "[32 # u ''Drama'' @ [10], u ''New'', u ''2020'']"] m
  show ?thesis by simp
qed

theorem year_string_kept_counterexample:
  "parse_movie_card ex_env (card_of year) (page_url_of 1) =
     Inr (fields [] [] [] (u ''1999'') []) \<and>
   str_of (fields [] [] [] (u ''1999'') []) ''types'' = u ''1999'' \<and>
   clean_types ex_env [u ''1999''] = [u ''1999'']"
  using ex_year by (simp add: str_of_fields) (simp add: eval_defs)

lemma long_text_facts:
  "length long_text = 41" "long_text \<noteq> []" "list_ex cjk long_text"
  "strip long_text = long_text" "replace_newline long_text = long_text"
  "ex_lower long_text = long_text"
  by (simp_all add: long_text_def list_ex_iff cjk_def strip_def isspace_def
        replace_newline_def ex_lower_def)

lemma long_text_not_denied: "long_text \<notin> set denylist"
proof -
  have "length x \<noteq> 41" if "x \<in> set denylist" for x
    using that by (auto simp: denylist_def u_def)
  then show ?thesis
    using long_text_facts(1) by blast
qed

lemma parse_no_refs:
  assumes "find_tag crd ''a'' = None" "find_tag crd ''img'' = None"
    and "select_one crd [\<lparr>sel_name = Some ''a'', sel_classes = [], sel_attrs = [''href'']\<rparr>]
           = None"
  shows "parse_movie_card env crd page_url =
           Inr (types_step env crd (rating_step crd (title_loop crd title_selectors data0)))"
  using assms by (simp add: parse_movie_card_steps detail_step_def image_step_def)

lemma ex_long:
  "parse_movie_card ex_env (card_of long) (page_url_of 1) = Inr (fields [] [] [] long_text [])"
proof -
  let ?c = "card_of long"
  have t: "title_loop ?c title_selectors data0 = data0"
    by (simp add: long_def title_selectors_def dom_defs card_of_def at_top_def)
  have r: "rating_step ?c data0 = data0"
    by (simp add: long_def rating_step_def rating_selectors_def dom_defs card_of_def
          at_top_def data0_def getitem_def)
  have f: "first_texts ?c type_selectors = []"
    by (simp add: long_def type_selectors_def matched_texts_def dom_defs card_of_def
          at_top_def)
  have g: "map get_text (take 6 (find_all ?c [''span'', ''p''])) = [long_text]"
    by (simp add: long_def dom_defs long_text_facts card_of_def at_top_def)
  have h: "heuristic_accepts ex_env long_text"
    by (simp add: heuristic_accepts_def long_text_facts)
  have c: "clean_types ex_env [long_text] = [long_text]"
    using long_text_not_denied by (simp add: clean_types_def long_text_facts ex_env_def)
  have "types_step ex_env ?c data0 = fields [] [] [] long_text []"
    by (simp add: types_step_def types_loop_eq f types_heuristic_def g h c fromkeys_def
          long_text_facts data0_def fields_def)
  moreover have "parse_movie_card ex_env ?c (page_url_of 1) =
      Inr (types_step ex_env ?c (rating_step ?c (title_loop ?c title_selectors data0)))"
    by (rule parse_no_refs) (simp_all add: long_def dom_defs card_of_def at_top_def)
  ultimately show ?thesis
    by (simp add: t r)
qed

text \<open>
  Claim C4. The test of the heuristic, as the program writes it, accepts a text of 41
  ideographs: the length bound belongs to the alphabetic alternative only, so the text
  is accepted though it is longer than 40, and it becomes the \<open>types\<close> of the container.
\<close>

theorem heuristic_accepts_long_cjk_text:
  "heuristic_accepts ex_env long_text \<and> length long_text = 41 \<and>
   \<not> spec_accepts ex_env long_text \<and>
   parse_movie_card ex_env (card_of long) (page_url_of 1) = Inr (fields [] [] [] long_text [])"
  by (simp add: heuristic_accepts_def spec_accepts_def long_text_facts ex_long)

lemma ex_random: "random_draw ex_env k = 1 / 2"
  by (simp add: ex_env_def)

lemma ex_cards_rows:
  "cards_rows ex_env 1 (page_url_of 1) (find_cards (document [movie (u ''One'')])) rws =
     Inr (rws @ [ex_row (u ''One'') 1])"
  "cards_rows ex_env 3 (page_url_of 3) (find_cards (document [movie (u ''Three'')])) rws =
     Inr (rws @ [ex_row (u ''Three'') 3])"
proof -
  have s: "strip (u ''One'') = u ''One''" "strip (u ''Three'') = u ''Three''"
    by (simp_all add: str_defs)
  have n: "u ''One'' \<noteq> []" "u ''Three'' \<noteq> []"
    by (simp_all add: u_def)
  show "cards_rows ex_env 1 (page_url_of 1) (find_cards (document [movie (u ''One'')])) rws =
     Inr (rws @ [ex_row (u ''One'') 1])"
    by (simp add: ex_find_cards ex_parse [OF n(1) s(1)])
  show "cards_rows ex_env 3 (page_url_of 3) (find_cards (document [movie (u ''Three'')])) rws =
     Inr (rws @ [ex_row (u ''Three'') 3])"
    by (simp add: ex_find_cards ex_parse [OF n(2) s(2)])
qed

lemma ex_scrape_run:
  "scrape_run ex_env 1 3 =
     Inr \<lparr>rows = [ex_row (u ''One'') 1, ex_row (u ''Three'') 3],
          events = [Fetch (page_url_of 1), Sleep (6 / 5), Fetch (page_url_of 2),
                    Fetch (page_url_of 3), Sleep (6 / 5)],
          draws = 2\<rparr>"
proof -
  have n: "u ''one'' \<noteq> []" "u ''three'' \<noteq> []"
    by (simp_all add: u_def)
  show ?thesis
    by (simp add: scrape_run_def upto.simps Let_def ex_fetch n ex_soup ex_cards_rows
          ex_random)
qed

text \<open>
  Claim C3. In the run over pages 1 to 3 in which the fetch of page 2 fails, the program
  fetches page 3 straight after the failed fetch: the sleep is reached only when the
  page was fetched.
\<close>

theorem no_delay_after_failed_fetch:
  "fetch ex_env (page_url_of 2) = None \<and>
   scrape_run ex_env 1 3 =
     Inr \<lparr>rows = [ex_row (u ''One'') 1, ex_row (u ''Three'') 3],
          events = [Fetch (page_url_of 1), Sleep (6 / 5), Fetch (page_url_of 2),
                    Fetch (page_url_of 3), Sleep (6 / 5)],
          draws = 2\<rparr>"
  by (simp add: ex_fetch ex_scrape_run)

lemma nested_children:
  "children_of (document [nested]) =
     [nested_outer, nested_inner,
      At [nested_item, nested, Element ''[document]'' [] [] [nested]]
         (Element ''img'' [] [(''alt'', u ''X'')] []),
      At [nested_item, nested, Element ''[document]'' [] [] [nested]]
         (Element ''a'' [] [(''href'', u ''/d'')] [])]"
  by (simp add: children_of_def document_def nested_outer_def at_top_def
        nested_inner_def nested_def nested_item_def)

lemma nested_facts:
  "cards_loop (document [nested]) card_selectors = []"
  "nested_outer \<in> set (find_all (document [nested]) [''article'', ''li'', ''div''])"
  "nested_inner \<in> set (find_all nested_outer [''article'', ''li'', ''div''])"
  "find_tag nested_inner ''img'' \<noteq> None"
  "find_tag nested_inner ''a'' \<noteq> None"
  by (simp_all add: card_selectors_def select_def selector_matches_def compound_matches_def
        by_class_def find_all_def find_tag_def nested_children)
     (simp_all add: nested_outer_def nested_inner_def nested_def nested_item_def
        children_of_def at_top_def)

lemma nested_find_cards:
  "find_cards (document [nested]) = [nested_outer, nested_inner]"
  by (simp add: find_cards_def nested_facts(1) possible_cards_def find_all_def find_tag_def
        nested_children)
     (simp add: nested_outer_def nested_inner_def nested_def nested_item_def
        children_of_def at_top_def)

lemma nested_card_rows:
  "card_row nested_env 1 url nested_outer = Inr (Some nested_row)"
  "card_row nested_env 1 url nested_inner = Inr (Some nested_row)"
  by (simp_all add: card_row_def step_defs dom_defs nested_outer_def nested_inner_def
        nested_def nested_item_def at_top_def nested_env_def ex_defs nested_row_def str_defs)

lemma nested_run: "scrape_pages nested_env 1 1 = Inr [nested_row, nested_row]"
proof -
  have f: "fetch nested_env (page_url_of 1) = Some (u ''page'')"
    by (simp add: fetch_def nested_env_def)
  have s: "soup_of nested_env (u ''page'') = Inr (document [nested])"
    by (simp add: soup_of_def nested_env_def document_def)
  have "page_rows nested_env 1 = Inr [nested_row, nested_row]"
    by (simp add: page_rows_def f s nested_find_cards nested_card_rows rows_of_card_def)
       (simp add: u_def)
  then show ?thesis
    by (simp add: scrape_pages_eq upto.simps)
qed

text \<open>
  Claim C10. When no card selector matches the page, the candidate containers are the
  \<open>article\<close>, \<open>li\<close> and \<open>div\<close> nodes of the page that have an \<open>img\<close> and an \<open>a\<close> below them, in
  document order, and nothing removes a node below an accepted one: a container \<open>q\<close> with
  an \<open>img\<close> and an \<open>a\<close>, found below an \<open>article\<close>, \<open>li\<close> or \<open>div\<close> node \<open>p\<close> of the page, is
  in the list together with \<open>p\<close>. In the sample page one listing gives two rows.
\<close>

theorem nested_containers_both_accepted:
  assumes "cards_loop soup card_selectors = []"
    and "p \<in> set (find_all soup [''article'', ''li'', ''div''])"
    and "q \<in> set (find_all p [''article'', ''li'', ''div''])"
    and "find_tag q ''img'' \<noteq> None" and "find_tag q ''a'' \<noteq> None"
  shows "find_cards soup =
           filter (\<lambda>c. find_tag c ''img'' \<noteq> None \<and> find_tag c ''a'' \<noteq> None)
             (find_all soup [''article'', ''li'', ''div'']) \<and>
         p \<in> set (find_cards soup) \<and> q \<in> set (find_cards soup) \<and>
         q \<in> set (children_of p)"
proof -
  have "q \<in> set (children_of p)"
    using assms(3) by (simp add: find_all_def)
  with nested_cards [OF assms] show ?thesis
    by (simp add: possible_cards_def)
qed

theorem nested_containers_both_accepted_witness:
  "find_cards (document [nested]) =
     filter (\<lambda>c. find_tag c ''img'' \<noteq> None \<and> find_tag c ''a'' \<noteq> None)
       (find_all (document [nested]) [''article'', ''li'', ''div'']) \<and>
   nested_outer \<in> set (find_cards (document [nested])) \<and>
   nested_inner \<in> set (find_cards (document [nested])) \<and>
   nested_inner \<in> set (children_of nested_outer) \<and>
   find_cards (document [nested]) = [nested_outer, nested_inner] \<and>
   scrape_pages nested_env 1 1 = Inr [nested_row, nested_row]"
  using nested_containers_both_accepted [OF nested_facts] nested_find_cards nested_run
  by blast

end
